theory Spec2Isabelle
  imports Main "HOL-Library.Multiset"
begin

section \<open>Data model (src/types/index.ts)\<close>

text \<open>
  \<^verbatim>\<open>SitemapUrl\<close>. The interface declares \<^verbatim>\<open>loc: string\<close>, but the values are
  built by \<^verbatim>\<open>parseSitemapXml\<close> from \<^verbatim>\<open>entry.loc\<close> of an untyped parse result, so at
  run time the field can be \<^verbatim>\<open>undefined\<close>: that is \<open>None\<close> here.
\<close>

record SitemapUrl =
  loc :: "string option"
  lastmod :: "string option"
  changefreq :: "string option"
  priority :: "string option"

section \<open>The path tree (src/lib/path-tree.ts)\<close>

text \<open>
  \<^verbatim>\<open>PathTreeNode\<close>. \<^verbatim>\<open>children\<close> is a JavaScript \<^verbatim>\<open>Map\<close>, which iterates in
  insertion order: an association list, in which the builder never repeats a key.
\<close>

datatype PathTreeNode = PathTreeNode
  (name: string)
  (fullPath: string)
  (urls: "SitemapUrl list")
  (isIncluded: bool)
  (totalUrlCount: nat)
  (limitedUrlCount: nat)
  (children: "(string \<times> PathTreeNode) list")
  (isExpanded: bool)
  (isSelected: bool)

record TreeStats =
  totalOriginalUrls :: nat
  totalLimitedUrls :: nat

text \<open>Field assignments \<^verbatim>\<open>node.f = v\<close>, as functions returning the changed node.\<close>

fun with_urls :: "PathTreeNode \<Rightarrow> SitemapUrl list \<Rightarrow> PathTreeNode" where
  "with_urls (PathTreeNode nm fp us inc t l cs ex sel) us' =
     PathTreeNode nm fp us' inc t l cs ex sel"

fun with_children :: "PathTreeNode \<Rightarrow> (string \<times> PathTreeNode) list \<Rightarrow> PathTreeNode" where
  "with_children (PathTreeNode nm fp us inc t l cs ex sel) cs' =
     PathTreeNode nm fp us inc t l cs' ex sel"

fun with_totalUrlCount :: "PathTreeNode \<Rightarrow> nat \<Rightarrow> PathTreeNode" where
  "with_totalUrlCount (PathTreeNode nm fp us inc t l cs ex sel) t' =
     PathTreeNode nm fp us inc t' l cs ex sel"

fun with_limitedUrlCount :: "PathTreeNode \<Rightarrow> nat \<Rightarrow> PathTreeNode" where
  "with_limitedUrlCount (PathTreeNode nm fp us inc t l cs ex sel) l' =
     PathTreeNode nm fp us inc t l' cs ex sel"

subsection \<open>String and array primitives of the language\<close>

text \<open>\<^verbatim>\<open>s.split('/')\<close>: the pieces between the slashes, empty pieces kept.\<close>

fun split_slash :: "string \<Rightarrow> string list" where
  "split_slash [] = ['''']"
| "split_slash (c # cs) =
     (if c = CHR ''/'' then [] # split_slash cs
      else (case split_slash cs of
              [] \<Rightarrow> [c # []]
            | p # ps \<Rightarrow> (c # p) # ps))"

text \<open>\<^verbatim>\<open>parts.join('/')\<close>.\<close>

fun join_slash :: "string list \<Rightarrow> string" where
  "join_slash [] = []"
| "join_slash [p] = p"
| "join_slash (p # q # ps) = p @ ''/'' @ join_slash (q # ps)"

text \<open>
  \<^verbatim>\<open>xs.slice(0, n)\<close> for an integer \<open>n\<close>: a negative end counts from the end of
  the array, and the result is empty when that falls before the start.
\<close>

definition slice0 :: "'a list \<Rightarrow> int \<Rightarrow> 'a list" where
  "slice0 xs n =
     (if n < 0 then take (nat (int (length xs) + n)) xs else take (nat n) xs)"

text \<open>
  \<^verbatim>\<open>new URL(url.loc).pathname\<close>. The URL parser of the platform is a parameter
  \<open>URL_pathname\<close>: the pathname of a string that parses as an absolute URL, \<open>None\<close>
  where the constructor throws. The constructor converts its argument to a string
  first, so an absent \<^verbatim>\<open>loc\<close> is parsed as the text \<^verbatim>\<open>undefined\<close>.
\<close>

definition new_URL :: "(string \<Rightarrow> string option) \<Rightarrow> string option \<Rightarrow> string option" where
  "new_URL URL_pathname l =
     (case l of None \<Rightarrow> URL_pathname ''undefined'' | Some s \<Rightarrow> URL_pathname s)"

subsection \<open>First pass of \<^verbatim>\<open>buildPathTree\<close>\<close>

definition emptyRoot :: PathTreeNode where
  "emptyRoot = PathTreeNode ''root'' '''' [] True 0 0 [] True False"

definition newChild :: "string \<Rightarrow> string \<Rightarrow> PathTreeNode" where
  "newChild segment fullPath' = PathTreeNode segment fullPath' [] True 0 0 [] False False"

text \<open>
  The loop over \<^verbatim>\<open>pathParts\<close> (lines 72-96), as a recursion on the segments still to
  walk; \<open>seen\<close> holds the segments already walked, so that \<open>seen @ [segment]\<close> is
  \<^verbatim>\<open>pathParts.slice(0, i + 1)\<close>. The function returns \<open>currentNode\<close> with the
  mutation of its subtree applied.
\<close>

fun walkSegments ::
  "string list \<Rightarrow> string list \<Rightarrow> SitemapUrl \<Rightarrow> PathTreeNode \<Rightarrow> PathTreeNode" where
  "walkSegments seen [] url currentNode = currentNode"
| "walkSegments seen (segment # rest) url currentNode =
     (let fullPath' = ''/'' @ join_slash (seen @ [segment]);
          cs = (if segment \<in> fst ` set (children currentNode) then children currentNode
                else children currentNode @ [(segment, newChild segment fullPath')])
      in with_children currentNode
           (map (\<lambda>(key, child).
                   if key = segment
                   then (key, walkSegments (seen @ [segment]) rest url
                                (if rest = [] then with_urls child (urls child @ [url])
                                 else child))
                   else (key, child)) cs))"

text \<open>The body of the loop over \<^verbatim>\<open>urls\<close> (lines 58-100), acting on the root.\<close>

definition addUrl :: "(string \<Rightarrow> string option) \<Rightarrow> SitemapUrl \<Rightarrow> PathTreeNode \<Rightarrow> PathTreeNode" where
  "addUrl URL_pathname url root =
     (case new_URL URL_pathname (loc url) of
        None \<Rightarrow> root
      | Some pathname \<Rightarrow>
          (let pathParts = filter (\<lambda>p. p \<noteq> []) (split_slash pathname)
           in if length pathParts = 0 then with_urls root (urls root @ [url])
              else walkSegments [] pathParts url root))"

subsection \<open>Second pass: inclusion marks and counts\<close>

fun hasAnyUrls :: "PathTreeNode \<Rightarrow> bool" where
  "hasAnyUrls (PathTreeNode nm fp us inc t l cs ex sel) =
     (if length us > 0 then True
      else list_ex (\<lambda>(key, child). hasAnyUrls child) cs)"

definition countAllUrls :: "PathTreeNode \<Rightarrow> nat" where
  "countAllUrls node =
     fold (\<lambda>(key, child) count. count + totalUrlCount child) (children node)
       (length (urls node))"

definition countLimitedUrls :: "PathTreeNode \<Rightarrow> nat" where
  "countLimitedUrls node =
     (if \<not> isIncluded node then 0
      else fold (\<lambda>(key, child) count. count + limitedUrlCount child) (children node)
             (length (urls node)))"

text \<open>
  \<^verbatim>\<open>markIncludedChildren\<close> with the \<^verbatim>\<open>stats\<close> object threaded through;
  \<open>processChildren\<close> is its second loop (lines 138-142), which assigns
  \<^verbatim>\<open>child.isIncluded\<close> and recurses into each child in turn.
\<close>

fun markIncludedChildren ::
    "PathTreeNode \<Rightarrow> TreeStats \<Rightarrow> bool \<Rightarrow> int \<Rightarrow> PathTreeNode \<times> TreeStats"
  and processChildren ::
    "(string \<times> PathTreeNode) list \<Rightarrow> string list \<Rightarrow> TreeStats \<Rightarrow> bool \<Rightarrow> int
       \<Rightarrow> (string \<times> PathTreeNode) list \<times> TreeStats" where
  "markIncludedChildren (PathTreeNode nm fp us inc t l cs ex sel) stats parentIncluded
       maxChildrenPerParent =
     (let childrenWithUrls = map fst (filter (\<lambda>(key, child). hasAnyUrls child) cs);
          isRootNode = (fp = '''');
          includedChildren =
            (if isRootNode then childrenWithUrls
             else slice0 childrenWithUrls maxChildrenPerParent);
          (cs', stats1) =
            processChildren cs includedChildren stats parentIncluded maxChildrenPerParent;
          node1 = PathTreeNode nm fp us inc t l cs' ex sel;
          node2 = with_totalUrlCount node1 (countAllUrls node1);
          node3 = with_limitedUrlCount node2 (countLimitedUrls node2);
          stats2 = stats1\<lparr>totalOriginalUrls := totalOriginalUrls stats1 + length (urls node3)\<rparr>;
          stats3 = (if isIncluded node3
                    then stats2\<lparr>totalLimitedUrls := totalLimitedUrls stats2 + length (urls node3)\<rparr>
                    else stats2)
      in (node3, stats3))"
| "processChildren [] includedChildren stats parentIncluded maxChildrenPerParent =
     ([], stats)"
| "processChildren ((key, PathTreeNode nm fp us inc t l cs ex sel) # rest) includedChildren
       stats parentIncluded maxChildrenPerParent =
     (let childIncluded = (parentIncluded \<and> key \<in> set includedChildren);
          (child', stats1) =
            markIncludedChildren (PathTreeNode nm fp us childIncluded t l cs ex sel) stats
              childIncluded maxChildrenPerParent;
          (rest', stats2) =
            processChildren rest includedChildren stats1 parentIncluded maxChildrenPerParent
      in ((key, child') # rest', stats2))"

definition buildPathTree ::
  "(string \<Rightarrow> string option) \<Rightarrow> SitemapUrl list \<Rightarrow> int \<Rightarrow> PathTreeNode \<times> TreeStats" where
  "buildPathTree URL_pathname urls' maxChildrenPerParent =
     (let root = fold (addUrl URL_pathname) urls' emptyRoot;
          stats = \<lparr>totalOriginalUrls = 0, totalLimitedUrls = 0\<rparr>
      in markIncludedChildren root stats True maxChildrenPerParent)"

fun getAllUrlsFromNode :: "PathTreeNode \<Rightarrow> SitemapUrl list" where
  "getAllUrlsFromNode (PathTreeNode nm fp us inc t l cs ex sel) =
     (if \<not> inc then []
      else us @ concat (map (\<lambda>(key, child). getAllUrlsFromNode child) cs))"

fun getAllOriginalUrlsFromNode :: "PathTreeNode \<Rightarrow> SitemapUrl list" where
  "getAllOriginalUrlsFromNode (PathTreeNode nm fp us inc t l cs ex sel) =
     us @ concat (map (\<lambda>(key, child). getAllOriginalUrlsFromNode child) cs)"

subsection \<open>Auxiliary notions for stating the properties\<close>

text \<open>
  The tree that \<open>markIncludedChildren\<close> returns, without the statistics: \<open>own\<close> is
  the node's own \<^verbatim>\<open>isIncluded\<close> as its caller left it. Shown equal to the first
  component of \<open>markIncludedChildren\<close> in \<open>markIncludedChildren_fst\<close>.
\<close>

fun markTree :: "bool \<Rightarrow> bool \<Rightarrow> int \<Rightarrow> PathTreeNode \<Rightarrow> PathTreeNode" where
  "markTree own parentIncluded maxChildrenPerParent (PathTreeNode nm fp us inc t l cs ex sel) =
     (let childrenWithUrls = map fst (filter (\<lambda>(key, child). hasAnyUrls child) cs);
          includedChildren =
            (if fp = '''' then childrenWithUrls
             else slice0 childrenWithUrls maxChildrenPerParent);
          cs' = map (\<lambda>(key, child).
                       (key, markTree (parentIncluded \<and> key \<in> set includedChildren)
                               (parentIncluded \<and> key \<in> set includedChildren)
                               maxChildrenPerParent child)) cs
      in PathTreeNode nm fp us own
           (length us + sum_list (map (\<lambda>(key, child). totalUrlCount child) cs'))
           (if own then length us + sum_list (map (\<lambda>(key, child). limitedUrlCount child) cs')
            else 0)
           cs' ex sel)"

text \<open>Every node of a tree, the root first.\<close>

fun allNodes :: "PathTreeNode \<Rightarrow> PathTreeNode list" where
  "allNodes (PathTreeNode nm fp us inc t l cs ex sel) =
     PathTreeNode nm fp us inc t l cs ex sel # concat (map (\<lambda>(key, child). allNodes child) cs)"

text \<open>No node has two children under one key, as in a \<^verbatim>\<open>Map\<close>.\<close>

fun distinctKeys :: "PathTreeNode \<Rightarrow> bool" where
  "distinctKeys (PathTreeNode nm fp us inc t l cs ex sel) =
     (distinct (map fst cs) \<and> list_all (\<lambda>(key, child). distinctKeys child) cs)"

text \<open>The three parts of the invariant on the counts, at one node.\<close>

definition countsInvariant :: "PathTreeNode \<Rightarrow> bool" where
  "countsInvariant n \<longleftrightarrow>
     limitedUrlCount n \<le> totalUrlCount n \<and>
     totalUrlCount n =
       length (urls n) + sum_list (map (\<lambda>(key, child). totalUrlCount child) (children n)) \<and>
     limitedUrlCount n =
       (if isIncluded n
        then length (urls n) + sum_list (map (\<lambda>(key, child). limitedUrlCount child) (children n))
        else 0)"

text \<open>An entry is kept by the first pass when the URL constructor accepts its \<^verbatim>\<open>loc\<close>.\<close>

definition validUrl :: "(string \<Rightarrow> string option) \<Rightarrow> SitemapUrl \<Rightarrow> bool" where
  "validUrl URL_pathname url \<longleftrightarrow> new_URL URL_pathname (loc url) \<noteq> None"

text \<open>
  A stand-in for the platform's URL parser, used in the examples only: it accepts
  \<^verbatim>\<open>h:\<close> followed by an absolute path (scheme \<^verbatim>\<open>h\<close>, no host), whose pathname is
  that path, and rejects every other string.
\<close>

definition toy_pathname :: "string \<Rightarrow> string option" where
  "toy_pathname s = (if take 3 s = ''h:/'' then Some (drop 2 s) else None)"

definition entry :: "string \<Rightarrow> SitemapUrl" where
  "entry s = \<lparr>loc = Some s, lastmod = None, changefreq = None, priority = None\<rparr>"

text \<open>
  Every node of a subtree, each with the flag "this node and every node above it, up to
  the start of the walk, is marked \<^verbatim>\<open>isIncluded\<close>"; \<open>ok\<close> is the flag of the
  path walked so far.
\<close>

fun chainNodes :: "bool \<Rightarrow> PathTreeNode \<Rightarrow> (bool \<times> PathTreeNode) list" where
  "chainNodes ok (PathTreeNode nm fp us inc t l cs ex sel) =
     (ok \<and> inc, PathTreeNode nm fp us inc t l cs ex sel) #
       concat (map (\<lambda>(key, child). chainNodes (ok \<and> inc) child) cs)"

text \<open>
  The URLs attached to the nodes whose chain of nodes below the root, the node itself
  included, is marked throughout. The chain of the root itself is empty.
\<close>

definition chainIncludedUrls :: "PathTreeNode \<Rightarrow> SitemapUrl list" where
  "chainIncludedUrls root =
     concat (map (\<lambda>(ok, n). urls n)
       (filter fst
          ((True, root) # concat (map (\<lambda>(key, child). chainNodes True child) (children root)))))"

text \<open>
  The node reached from a node by a path of keys (\<^verbatim>\<open>children.get(key)\<close> at each
  step), and whether the node at a path exists and is marked \<^verbatim>\<open>isIncluded\<close>.
\<close>

fun nodeAt :: "PathTreeNode \<Rightarrow> string list \<Rightarrow> PathTreeNode option" where
  "nodeAt n [] = Some n"
| "nodeAt n (key # keys) =
     (case map_of (children n) key of
        None \<Rightarrow> None
      | Some child \<Rightarrow> nodeAt child keys)"

definition includedAt :: "PathTreeNode \<Rightarrow> string list \<Rightarrow> bool" where
  "includedAt t path = (case nodeAt t path of None \<Rightarrow> False | Some n \<Rightarrow> isIncluded n)"

section \<open>Values thrown and string helpers\<close>

text \<open>
  What a \<^verbatim>\<open>catch\<close> clause receives: an \<^verbatim>\<open>Error\<close> object with its message, or a value
  that is not an \<^verbatim>\<open>Error\<close> (the handlers test \<^verbatim>\<open>error instanceof Error\<close>).
\<close>

datatype thrown = ErrorObj string | NotAnError

text \<open>
  Conversion to a string of a value that is a string or \<^verbatim>\<open>undefined\<close>, as the platform
  does for the argument of \<^verbatim>\<open>fetch\<close>.
\<close>

definition String_of :: "string option \<Rightarrow> string" where
  "String_of l = (case l of None \<Rightarrow> ''undefined'' | Some s \<Rightarrow> s)"

text \<open>\<^verbatim>\<open>s.includes(t)\<close> and \<^verbatim>\<open>s.endsWith(t)\<close>.\<close>

definition str_includes :: "string \<Rightarrow> string \<Rightarrow> bool" where
  "str_includes s t = list_ex (\<lambda>i. take (length t) (drop i s) = t) [0..<Suc (length s)]"

definition endsWith :: "string \<Rightarrow> string \<Rightarrow> bool" where
  "endsWith s t = (length t \<le> length s \<and> drop (length s - length t) s = t)"

text \<open>The decimal text of a number, as a template literal prints an HTTP status.\<close>

definition digit :: "nat \<Rightarrow> char" where
  "digit d = ''0123456789'' ! d"

function decimal :: "nat \<Rightarrow> string" where
  "decimal n = (if n < 10 then [digit n] else decimal (n div 10) @ [digit (n mod 10)])"
  by pat_completeness auto
termination
  by (relation "measure id") auto

declare decimal.simps [simp del]

text \<open>
  The response of the platform's \<^verbatim>\<open>fetch\<close>; \<open>body_text\<close> is the outcome of
  \<^verbatim>\<open>response.text()\<close>. A \<^verbatim>\<open>fetch\<close> that rejects (network failure, abort) is
  \<open>Inl\<close> of the value it rejects with.
\<close>

record Response =
  ok :: bool
  status :: nat
  statusText :: string
  body_text :: "thrown + string"

type_synonym fetch_fn = "string \<Rightarrow> thrown + Response"

section \<open>The sitemap resolver (route \<^verbatim>\<open>parse-sitemap\<close>)\<close>

text \<open>
  The object \<^verbatim>\<open>parser.parse(xml)\<close> returns, as far as the route reads it. A tag that
  occurs once is a single object, a tag that occurs several times an array
  (\<^verbatim>\<open>Array.isArray\<close>); \<open>None\<close> is an absent or falsy property. \<open>x_priority\<close>
  holds the text \<^verbatim>\<open>entry.priority?.toString()\<close>.
\<close>

record XmlEntry =
  x_loc :: "string option"
  x_lastmod :: "string option"
  x_changefreq :: "string option"
  x_priority :: "string option"

datatype 'a occurrence = Single 'a | Multiple "'a list"

record ParsedXml =
  urlset_url :: "XmlEntry occurrence option"
  sitemapindex_sitemap :: "XmlEntry occurrence option"

type_synonym xml_parser = "string \<Rightarrow> thrown + ParsedXml"

text \<open>\<^verbatim>\<open>Array.isArray(x) ? x : [x]\<close>.\<close>

definition entries_of :: "'a occurrence \<Rightarrow> 'a list" where
  "entries_of x = (case x of Single e \<Rightarrow> [e] | Multiple es \<Rightarrow> es)"

text \<open>
  \<^verbatim>\<open>fetchSitemap\<close>. The list of the URLs requested so far is threaded through, so that
  the requests a resolution makes can be counted.
\<close>

definition fetchSitemap ::
  "fetch_fn \<Rightarrow> string \<Rightarrow> string list \<Rightarrow> (thrown + string) \<times> string list" where
  "fetchSitemap fetch url requested =
     (let requested' = requested @ [url]
      in case fetch url of
           Inl e \<Rightarrow> (Inl e, requested')
         | Inr response \<Rightarrow>
             if \<not> ok response
             then (Inl (ErrorObj (''Failed to fetch sitemap: '' @ decimal (status response)
                                    @ '' '' @ statusText response)), requested')
             else (body_text response, requested'))"

text \<open>The two loops of \<^verbatim>\<open>parseSitemapXml\<close>, on the parsed object.\<close>

definition sitemapEntries :: "ParsedXml \<Rightarrow> SitemapUrl list" where
  "sitemapEntries parsed =
     (let urls1 =
            (case urlset_url parsed of
               None \<Rightarrow> []
             | Some u \<Rightarrow>
                 map (\<lambda>entry. \<lparr>loc = x_loc entry, lastmod = x_lastmod entry,
                                changefreq = x_changefreq entry, priority = x_priority entry\<rparr>)
                     (entries_of u));
          urls2 =
            (case sitemapindex_sitemap parsed of
               None \<Rightarrow> urls1
             | Some s \<Rightarrow>
                 urls1 @ map (\<lambda>entry. \<lparr>loc = x_loc entry, lastmod = x_lastmod entry,
                                        changefreq = None, priority = None\<rparr>)
                             (entries_of s))
      in urls2)"

definition parseSitemapXml :: "xml_parser \<Rightarrow> string \<Rightarrow> thrown + SitemapUrl list" where
  "parseSitemapXml parser xml =
     (case parser xml of
        Inl e \<Rightarrow> Inl e
      | Inr parsed \<Rightarrow> Inr (sitemapEntries parsed))"

text \<open>The outcome of one promise under \<^verbatim>\<open>Promise.allSettled\<close>.\<close>

datatype 'a settled = Fulfilled 'a | Rejected thrown

text \<open>
  The callback mapped over \<^verbatim>\<open>sitemapsToFetch\<close>: fetch one nested sitemap and parse
  it. Every callback issues its request when it is called, in the order of the array.
\<close>

definition nestedTask ::
  "fetch_fn \<Rightarrow> xml_parser \<Rightarrow> SitemapUrl \<Rightarrow> string list
     \<Rightarrow> SitemapUrl list settled \<times> string list" where
  "nestedTask fetch parser sitemap requested =
     (case fetchSitemap fetch (String_of (loc sitemap)) requested of
        (Inl e, requested') \<Rightarrow> (Rejected e, requested')
      | (Inr xml, requested') \<Rightarrow>
          (case parseSitemapXml parser xml of
             Inl e \<Rightarrow> (Rejected e, requested')
           | Inr value \<Rightarrow> (Fulfilled value, requested')))"

fun settleAll ::
  "fetch_fn \<Rightarrow> xml_parser \<Rightarrow> SitemapUrl list \<Rightarrow> string list
     \<Rightarrow> SitemapUrl list settled list \<times> string list" where
  "settleAll fetch parser [] requested = ([], requested)"
| "settleAll fetch parser (sitemap # rest) requested =
     (let (result, requested1) = nestedTask fetch parser sitemap requested;
          (results, requested2) = settleAll fetch parser rest requested1
      in (result # results, requested2))"

definition fetchNestedSitemaps ::
  "fetch_fn \<Rightarrow> xml_parser \<Rightarrow> SitemapUrl list \<Rightarrow> string list
     \<Rightarrow> SitemapUrl list \<times> string list" where
  "fetchNestedSitemaps fetch parser sitemapUrls requested =
     (let sitemapsToFetch = take 10 sitemapUrls;
          (results, requested') = settleAll fetch parser sitemapsToFetch requested;
          allUrls = fold (\<lambda>result allUrls.
                            case result of
                              Fulfilled value \<Rightarrow> allUrls @ value
                            | Rejected e \<Rightarrow> allUrls) results []
      in (allUrls, requested'))"

text \<open>
  Reading \<^verbatim>\<open>.includes\<close> or \<^verbatim>\<open>.endsWith\<close> of an absent \<^verbatim>\<open>loc\<close> throws a
  \<^verbatim>\<open>TypeError\<close>.
\<close>

definition undefinedLoc :: thrown where
  "undefinedLoc = ErrorObj ''Cannot read properties of undefined''"

text \<open>
  \<^verbatim>\<open>urls.every(u => u.loc.endsWith('.xml') || u.loc.includes('sitemap'))\<close>: left to
  right, stopping at the first entry that fails the test.
\<close>

fun everyLooksLikeSitemap :: "SitemapUrl list \<Rightarrow> thrown + bool" where
  "everyLooksLikeSitemap [] = Inr True"
| "everyLooksLikeSitemap (u # us) =
     (case loc u of
        None \<Rightarrow> Inl undefinedLoc
      | Some l \<Rightarrow>
          if endsWith l ''.xml'' \<or> str_includes l ''sitemap'' then everyLooksLikeSitemap us
          else Inr False)"

text \<open>
  The test of lines 292-298: whether the route goes on to fetch nested sitemaps.
\<close>

definition isSitemapIndex :: "SitemapUrl list \<Rightarrow> thrown + bool" where
  "isSitemapIndex urls' =
     (case urls' of
        [] \<Rightarrow> Inr False
      | u0 # rest \<Rightarrow>
          (case loc u0 of
             None \<Rightarrow> Inl undefinedLoc
           | Some l0 \<Rightarrow>
               if str_includes l0 ''sitemap'' then everyLooksLikeSitemap urls' else Inr False))"

text \<open>The replies of the route: status 400, 200 and 500 with their bodies.\<close>

datatype parse_sitemap_reply =
    Bad400 string
  | Ok200 "SitemapUrl list" nat
  | Err500 string "SitemapUrl list" nat

definition errorMessage :: "thrown \<Rightarrow> string \<Rightarrow> string" where
  "errorMessage e fallback = (case e of ErrorObj m \<Rightarrow> m | NotAnError \<Rightarrow> fallback)"

text \<open>
  \<^verbatim>\<open>POST\<close> of the route. The request is the outcome of \<^verbatim>\<open>request.json()\<close>, reduced
  to its \<^verbatim>\<open>url\<close> property; \<open>URL_pathname\<close> stands for the URL constructor as above.
  The second component is the list of URLs requested.
\<close>

definition resolve_try ::
  "fetch_fn \<Rightarrow> xml_parser \<Rightarrow> string \<Rightarrow> (thrown + SitemapUrl list) \<times> string list" where
  "resolve_try fetch parser url =
     (case fetchSitemap fetch url [] of
        (Inl e, requested) \<Rightarrow> (Inl e, requested)
      | (Inr xml, requested) \<Rightarrow>
          (case parseSitemapXml parser xml of
             Inl e \<Rightarrow> (Inl e, requested)
           | Inr urls' \<Rightarrow>
               (case isSitemapIndex urls' of
                  Inl e \<Rightarrow> (Inl e, requested)
                | Inr False \<Rightarrow> (Inr urls', requested)
                | Inr True \<Rightarrow>
                    (let (nestedUrls, requested') =
                           fetchNestedSitemaps fetch parser urls' requested
                     in if length nestedUrls > 0 then (Inr nestedUrls, requested')
                        else (Inr urls', requested')))))"

definition POST_parse_sitemap ::
  "(string \<Rightarrow> string option) \<Rightarrow> fetch_fn \<Rightarrow> xml_parser \<Rightarrow> thrown + string option
     \<Rightarrow> parse_sitemap_reply \<times> string list" where
  "POST_parse_sitemap URL_pathname fetch parser request =
     (case request of
        Inl e \<Rightarrow> (Err500 (errorMessage e ''Failed to parse sitemap'') [] 0, [])
      | Inr None \<Rightarrow> (Bad400 ''Sitemap URL is required'', [])
      | Inr (Some url) \<Rightarrow>
          if url = [] then (Bad400 ''Sitemap URL is required'', [])
          else if URL_pathname url = None then (Bad400 ''Invalid URL format'', [])
          else (case resolve_try fetch parser url of
                  (Inl e, requested) \<Rightarrow>
                    (Err500 (errorMessage e ''Failed to parse sitemap'') [] 0, requested)
                | (Inr urls', requested) \<Rightarrow> (Ok200 urls' (length urls'), requested)))"

section \<open>The metadata route (route \<^verbatim>\<open>fetch-meta\<close>)\<close>

record MetaTag =
  tag_name :: string
  content :: string
  property :: "string option"

datatype record_status = StatusSuccess | StatusError

text \<open>\<^verbatim>\<open>PageMetaData\<close> of src/types/index.ts.\<close>

record PageMetaData =
  url :: string
  title :: string
  description :: string
  canonical :: string
  ogTitle :: string
  ogDescription :: string
  ogImage :: string
  ogUrl :: string
  ogType :: string
  ogSiteName :: string
  twitterCard :: string
  twitterTitle :: string
  twitterDescription :: string
  twitterImage :: string
  twitterSite :: string
  favicon :: string
  allMetaTags :: "MetaTag list"
  pageStatus :: record_status
  error :: "string option"

text \<open>
  \<^verbatim>\<open>fetchPageContent\<close>. The abort after 10000 ms makes the platform's \<^verbatim>\<open>fetch\<close>
  reject; the time itself is not modelled, a timeout is one of the rejections \<open>Inl\<close>
  of the \<open>fetch\<close> parameter.
\<close>

definition fetchPageContent :: "fetch_fn \<Rightarrow> string \<Rightarrow> thrown + string" where
  "fetchPageContent fetch url' =
     (case fetch url' of
        Inl e \<Rightarrow> Inl e
      | Inr response \<Rightarrow>
          if \<not> ok response
          then Inl (ErrorObj (''HTTP '' @ decimal (status response) @ '': ''
                               @ statusText response))
          else body_text response)"

text \<open>
  \<^verbatim>\<open>extractMetaTags\<close>. The reading of the document with the HTML library is the
  parameter \<open>scrape\<close>, which yields the extracted fields or the value an extraction
  step throws; the function itself fixes \<^verbatim>\<open>url\<close> and \<^verbatim>\<open>status: 'success'\<close> and
  sets no \<^verbatim>\<open>error\<close>.
\<close>

type_synonym scraper = "string \<Rightarrow> string \<Rightarrow> thrown + PageMetaData"

definition extractMetaTags :: "scraper \<Rightarrow> string \<Rightarrow> string \<Rightarrow> thrown + PageMetaData" where
  "extractMetaTags scrape html url' =
     (case scrape html url' of
        Inl e \<Rightarrow> Inl e
      | Inr extracted \<Rightarrow> Inr (extracted\<lparr>url := url', pageStatus := StatusSuccess, error := None\<rparr>))"

text \<open>The \<^verbatim>\<open>try\<close> block of \<^verbatim>\<open>processUrl\<close>: the record, or the value thrown.\<close>

definition tryFetchAndExtract :: "fetch_fn \<Rightarrow> scraper \<Rightarrow> string \<Rightarrow> thrown + PageMetaData" where
  "tryFetchAndExtract fetch scrape url' =
     (case fetchPageContent fetch url' of
        Inl e \<Rightarrow> Inl e
      | Inr html \<Rightarrow> extractMetaTags scrape html url')"

definition processUrl :: "fetch_fn \<Rightarrow> scraper \<Rightarrow> string \<Rightarrow> PageMetaData" where
  "processUrl fetch scrape url' =
     (case tryFetchAndExtract fetch scrape url' of
        Inr r \<Rightarrow> r
      | Inl e \<Rightarrow>
          \<lparr>url = url', title = [], description = [], canonical = [], ogTitle = [],
           ogDescription = [], ogImage = [], ogUrl = [], ogType = [], ogSiteName = [],
           twitterCard = [], twitterTitle = [], twitterDescription = [], twitterImage = [],
           twitterSite = [], favicon = [], allMetaTags = [], pageStatus = StatusError,
           error = Some (errorMessage e ''Unknown error'')\<rparr>)"

record FetchMetaResponse =
  results :: "PageMetaData list"
  processedCount :: nat
  errorCount :: nat

datatype fetch_meta_reply =
    MetaBad400 string
  | MetaOk200 FetchMetaResponse
  | MetaErr500 string "PageMetaData list" nat nat

text \<open>
  The loop of lines 158-162: batches of \<open>batchSize\<close>, each settled with
  \<^verbatim>\<open>Promise.all\<close> (which keeps the order of the batch) before the next starts.
\<close>

function processBatches ::
  "fetch_fn \<Rightarrow> scraper \<Rightarrow> nat \<Rightarrow> string list \<Rightarrow> nat \<Rightarrow> PageMetaData list
     \<Rightarrow> PageMetaData list" where
  "processBatches fetch scrape batchSize urlsToProcess i results' =
     (if i < length urlsToProcess \<and> 0 < batchSize
      then (let batch = take batchSize (drop i urlsToProcess);
                batchResults = map (processUrl fetch scrape) batch
            in processBatches fetch scrape batchSize urlsToProcess (i + batchSize)
                 (results' @ batchResults))
      else results')"
  by pat_completeness auto
termination
  by (relation "measure (\<lambda>(fetch, scrape, batchSize, urlsToProcess, i, results').
                           length urlsToProcess - i)") auto

declare processBatches.simps [simp del]

text \<open>
  \<^verbatim>\<open>POST\<close> of the route. The request is the outcome of \<^verbatim>\<open>request.json()\<close>, reduced
  to its \<^verbatim>\<open>urls\<close> property: \<open>None\<close> when it is absent or not an array.
\<close>

definition POST_fetch_meta ::
  "fetch_fn \<Rightarrow> scraper \<Rightarrow> thrown + string list option \<Rightarrow> fetch_meta_reply" where
  "POST_fetch_meta fetch scrape request =
     (case request of
        Inl e \<Rightarrow> MetaErr500 (errorMessage e ''Failed to fetch meta tags'') [] 0 0
      | Inr None \<Rightarrow> MetaBad400 ''URLs array is required''
      | Inr (Some urls') \<Rightarrow>
          if length urls' = 0 then MetaBad400 ''URLs array is required''
          else (let urlsToProcess = take 50 urls';
                    batchSize = 5;
                    results' = processBatches fetch scrape batchSize urlsToProcess 0 []
                in MetaOk200 \<lparr>results = results',
                              processedCount = length results',
                              errorCount = length (filter (\<lambda>r. pageStatus r = StatusError) results')\<rparr>))"

section \<open>The selection (src/app/page.tsx)\<close>

text \<open>
  \<^verbatim>\<open>handleToggleSelect\<close>: the new value of the state \<^verbatim>\<open>selectedUrls\<close>, a set of
  \<^verbatim>\<open>loc\<close> values.
\<close>

definition handleToggleSelect ::
  "string option set \<Rightarrow> SitemapUrl list \<Rightarrow> string option set" where
  "handleToggleSelect selectedUrls urlsToToggle =
     (let newSelected = selectedUrls;
          locs = map loc urlsToToggle;
          allSelected = list_all (\<lambda>l. l \<in> newSelected) locs
      in if allSelected then fold (\<lambda>l s. s - {l}) locs newSelected
         else fold (\<lambda>l s. insert l s) locs newSelected)"

section \<open>Notions used to state the claims about the routes, and example environments\<close>

text \<open>
  The entries of a sitemap document, in the words of the data model: each \<^verbatim>\<open>url\<close>
  element of \<^verbatim>\<open>urlset\<close> gives an entry with its \<^verbatim>\<open>loc\<close>, \<^verbatim>\<open>lastmod\<close>,
  \<^verbatim>\<open>changefreq\<close> and \<^verbatim>\<open>priority\<close>; each \<^verbatim>\<open>sitemap\<close> element of
  \<^verbatim>\<open>sitemapindex\<close> gives a reference with its \<^verbatim>\<open>loc\<close> and \<^verbatim>\<open>lastmod\<close>.
\<close>

definition urlEntry :: "XmlEntry \<Rightarrow> SitemapUrl" where
  "urlEntry e = \<lparr>loc = x_loc e, lastmod = x_lastmod e, changefreq = x_changefreq e,
                 priority = x_priority e\<rparr>"

definition sitemapRef :: "XmlEntry \<Rightarrow> SitemapUrl" where
  "sitemapRef e = \<lparr>loc = x_loc e, lastmod = x_lastmod e, changefreq = None, priority = None\<rparr>"

definition documentEntries :: "ParsedXml \<Rightarrow> SitemapUrl list" where
  "documentEntries parsed =
     map urlEntry (case urlset_url parsed of None \<Rightarrow> [] | Some u \<Rightarrow> entries_of u) @
     map sitemapRef (case sitemapindex_sitemap parsed of None \<Rightarrow> [] | Some s \<Rightarrow> entries_of s)"

text \<open>An entry whose \<^verbatim>\<open>loc\<close> ends in \<^verbatim>\<open>.xml\<close> or contains \<^verbatim>\<open>sitemap\<close>.\<close>

definition looksLikeSitemap :: "SitemapUrl \<Rightarrow> bool" where
  "looksLikeSitemap u =
     (case loc u of
        None \<Rightarrow> False
      | Some l \<Rightarrow> endsWith l ''.xml'' \<or> str_includes l ''sitemap'')"

text \<open>The \<^verbatim>\<open>loc\<close> of the first entry contains \<^verbatim>\<open>sitemap\<close>.\<close>

definition firstContainsSitemap :: "SitemapUrl list \<Rightarrow> bool" where
  "firstContainsSitemap us =
     (case us of
        [] \<Rightarrow> False
      | u # rest \<Rightarrow> (case loc u of None \<Rightarrow> False | Some l \<Rightarrow> str_includes l ''sitemap''))"

text \<open>
  What one nested sitemap contributes, stated on the outcomes of the platform's
  \<^verbatim>\<open>fetch\<close> and of the XML parser, not on the route's code: nothing when the request
  is rejected, when the response status is not 2xx, when the body cannot be read or
  when the body does not parse; the entries of the document otherwise.
\<close>

definition contribution :: "fetch_fn \<Rightarrow> xml_parser \<Rightarrow> SitemapUrl \<Rightarrow> SitemapUrl list" where
  "contribution fetch parser sitemap =
     (case fetch (String_of (loc sitemap)) of
        Inl e \<Rightarrow> []
      | Inr response \<Rightarrow>
          if \<not> ok response then []
          else (case body_text response of
                  Inl e \<Rightarrow> []
                | Inr xml \<Rightarrow>
                    (case parser xml of
                       Inl e \<Rightarrow> []
                     | Inr parsed \<Rightarrow> documentEntries parsed)))"

text \<open>
  A small network for the examples: an index of two sitemaps, the second of which
  answers 404 with a body that would parse; a sitemap whose only entry ends in
  \<^verbatim>\<open>.xml\<close>; two sitemaps with an entry that has no \<^verbatim>\<open>loc\<close>, in the second of which
  the first entry names a sitemap; a request that is aborted, and pages that answer 404.
\<close>

definition toy_fetch :: fetch_fn where
  "toy_fetch u =
     (if u = ''h:/sitemap.xml''
      then Inr \<lparr>ok = True, status = 200, statusText = ''OK'', body_text = Inr ''index''\<rparr>
      else if u = ''h:/sitemap-1.xml''
      then Inr \<lparr>ok = True, status = 200, statusText = ''OK'', body_text = Inr ''pages''\<rparr>
      else if u = ''h:/sitemap-2.xml''
      then Inr \<lparr>ok = False, status = 404, statusText = ''Not Found'',
                body_text = Inr ''pages''\<rparr>
      else if u = ''h:/plain''
      then Inr \<lparr>ok = True, status = 200, statusText = ''OK'', body_text = Inr ''plain''\<rparr>
      else if u = ''h:/mixed''
      then Inr \<lparr>ok = True, status = 200, statusText = ''OK'', body_text = Inr ''mixed''\<rparr>
      else if u = ''h:/holes''
      then Inr \<lparr>ok = True, status = 200, statusText = ''OK'', body_text = Inr ''holes''\<rparr>
      else if u = ''h:/slow''
      then Inl (ErrorObj ''This operation was aborted'')
      else Inr \<lparr>ok = False, status = 404, statusText = ''Not Found'',
                body_text = Inr []\<rparr>)"

definition xml_entry :: "string option \<Rightarrow> XmlEntry" where
  "xml_entry l = \<lparr>x_loc = l, x_lastmod = None, x_changefreq = None, x_priority = None\<rparr>"

definition toy_parser :: xml_parser where
  "toy_parser xml =
     (if xml = ''index''
      then Inr \<lparr>urlset_url = None,
                sitemapindex_sitemap =
                  Some (Multiple [xml_entry (Some ''h:/sitemap-1.xml''),
                                  xml_entry (Some ''h:/sitemap-2.xml'')])\<rparr>
      else if xml = ''pages''
      then Inr \<lparr>urlset_url = Some (Multiple [xml_entry (Some ''h:/a''), xml_entry (Some ''h:/b'')]),
                sitemapindex_sitemap = None\<rparr>
      else if xml = ''plain''
      then Inr \<lparr>urlset_url = Some (Single (xml_entry (Some ''h:/a.xml''))),
                sitemapindex_sitemap = None\<rparr>
      else if xml = ''mixed''
      then Inr \<lparr>urlset_url = Some (Multiple [xml_entry (Some ''h:/a''), xml_entry None]),
                sitemapindex_sitemap = None\<rparr>
      else if xml = ''holes''
      then Inr \<lparr>urlset_url = Some (Multiple [xml_entry (Some ''h:/sitemap-a.xml''), xml_entry None]),
                sitemapindex_sitemap = None\<rparr>
      else Inl (ErrorObj ''malformed document''))"

definition toy_scrape :: scraper where
  "toy_scrape html u =
     Inr \<lparr>url = [], title = html, description = [], canonical = u, ogTitle = [],
          ogDescription = [], ogImage = [], ogUrl = [], ogType = [], ogSiteName = [],
          twitterCard = [], twitterTitle = [], twitterDescription = [], twitterImage = [],
          twitterSite = [], favicon = [], allMetaTags = [], pageStatus = StatusSuccess,
          error = None\<rparr>"

section \<open>Properties of the path tree\<close>

subsection \<open>The second pass, as a function of the tree alone\<close>

lemma with_sel [simp]:
  "children (with_urls n us') = children n"
  "urls (with_urls n us') = us'"
  "isIncluded (with_urls n us') = isIncluded n"
  "fullPath (with_urls n us') = fullPath n"
  "children (with_children n cs') = cs'"
  "urls (with_children n cs') = urls n"
  "isIncluded (with_children n cs') = isIncluded n"
  "fullPath (with_children n cs') = fullPath n"
  by (cases n; simp)+

lemma with_counts [simp]:
  "with_limitedUrlCount (with_totalUrlCount (PathTreeNode nm fp us inc t l cs ex sel) t') l'
     = PathTreeNode nm fp us inc t' l' cs ex sel"
  by simp

lemma fold_count: "fold (\<lambda>x count. count + g x) cs a = a + sum_list (map g cs)"
  by (induction cs arbitrary: a) (auto simp: ac_simps)

lemma markTree_ignores:
  "markTree own p m (PathTreeNode nm fp us inc t l cs ex sel) =
   markTree own p m (PathTreeNode nm fp us inc' t' l' cs ex sel)"
  by simp

lemma markIncludedChildren_fst:
  "fst (markIncludedChildren n st p m) = markTree (isIncluded n) p m n"
  "fst (processChildren cs inc st p m) =
     map (\<lambda>(key, child). (key, markTree (p \<and> key \<in> set inc) (p \<and> key \<in> set inc) m child)) cs"
proof (induction n st p m and cs inc st p m rule: markIncludedChildren_processChildren.induct)
  case (1 nm fp us inc t l cs ex sel stats parentIncluded maxChildrenPerParent)
  then show ?case
    by (simp add: Let_def case_prod_unfold countAllUrls_def countLimitedUrls_def fold_count comp_def)
next
  case (2 includedChildren stats parentIncluded maxChildrenPerParent)
  then show ?case by simp
next
  case (3 key nm fp us inc t l cs ex sel rest includedChildren stats parentIncluded maxChildrenPerParent)
  then show ?case
  proof -
    let ?ci = "parentIncluded \<and> key \<in> set includedChildren"
    let ?child = "PathTreeNode nm fp us ?ci t l cs ex sel"
    obtain child' stats1 where
      eq: "markIncludedChildren ?child stats ?ci maxChildrenPerParent = (child', stats1)"
      by fastforce
    have c: "child' = markTree ?ci ?ci maxChildrenPerParent (PathTreeNode nm fp us inc t l cs ex sel)"
      using "3.IH"(1)[OF refl] eq markTree_ignores[of ?ci ?ci maxChildrenPerParent nm fp us ?ci t l cs ex sel inc t l]
      by (simp del: markIncludedChildren.simps markTree.simps)
    have r: "fst (processChildren rest includedChildren stats1 parentIncluded maxChildrenPerParent) =
       map (\<lambda>(key, child). (key, markTree (parentIncluded \<and> key \<in> set includedChildren)
              (parentIncluded \<and> key \<in> set includedChildren) maxChildrenPerParent child)) rest"
      using "3.IH"(2)[OF refl eq[symmetric] refl] .
    show ?thesis
      using eq c r
      by (simp add: Let_def case_prod_unfold del: markIncludedChildren.simps markTree.simps)
  qed
qed

subsection \<open>Counts after the second pass\<close>

lemma markTree_sel [simp]:
  "isIncluded (markTree own p m n) = own"
  "urls (markTree own p m n) = urls n"
  "fullPath (markTree own p m n) = fullPath n"
  "map fst (children (markTree own p m n)) = map fst (children n)"
  by (cases n; simp add: Let_def case_prod_unfold comp_def)+

lemma markTree_original_urls:
  "getAllOriginalUrlsFromNode (markTree own p m n) = getAllOriginalUrlsFromNode n"
proof (induction n arbitrary: own p)
  case (PathTreeNode nm fp us inc t l cs ex sel)
  have "\<And>kc b. kc \<in> set cs \<Longrightarrow>
          getAllOriginalUrlsFromNode (markTree b b m (snd kc)) = getAllOriginalUrlsFromNode (snd kc)"
    using PathTreeNode.IH by (auto simp: snds.simps)
  then show ?case
    by (simp add: Let_def case_prod_unfold comp_def cong: map_cong)
qed

lemma markTree_total:
  "totalUrlCount (markTree own p m n) = length (getAllOriginalUrlsFromNode n)"
proof (induction n arbitrary: own p)
  case (PathTreeNode nm fp us inc t l cs ex sel)
  have "\<And>kc b. kc \<in> set cs \<Longrightarrow>
          totalUrlCount (markTree b b m (snd kc)) = length (getAllOriginalUrlsFromNode (snd kc))"
    using PathTreeNode.IH by (auto simp: snds.simps)
  then show ?case
    by (simp add: Let_def case_prod_unfold comp_def length_concat cong: map_cong)
qed

lemma markTree_limited_le:
  "limitedUrlCount (markTree own p m n) \<le> totalUrlCount (markTree own p m n)"
proof (induction n arbitrary: own p)
  case (PathTreeNode nm fp us inc t l cs ex sel)
  have "\<And>kc b. kc \<in> set cs \<Longrightarrow>
          limitedUrlCount (markTree b b m (snd kc)) \<le> totalUrlCount (markTree b b m (snd kc))"
    using PathTreeNode.IH by (auto simp: snds.simps)
  then show ?case
    by (auto simp add: Let_def case_prod_unfold comp_def intro!: sum_list_mono)
qed

lemma markTree_countsInvariant_root: "countsInvariant (markTree own p m n)"
  using markTree_limited_le[of own p m n]
  by (cases n) (simp add: countsInvariant_def Let_def case_prod_unfold comp_def)

lemma markTree_countsInvariant:
  "x \<in> set (allNodes (markTree own p m n)) \<Longrightarrow> countsInvariant x"
proof (induction n arbitrary: own p x)
  case (PathTreeNode nm fp us inc t l cs ex sel)
  let ?n = "PathTreeNode nm fp us inc t l cs ex sel"
  have IH: "\<And>kc b y. kc \<in> set cs \<Longrightarrow> y \<in> set (allNodes (markTree b b m (snd kc))) \<Longrightarrow> countsInvariant y"
    using PathTreeNode.IH by (auto simp: snds.simps)
  from PathTreeNode.prems
  have "x = markTree own p m ?n \<or>
        (\<exists>kc\<in>set cs. \<exists>b. x \<in> set (allNodes (markTree b b m (snd kc))))"
    by (auto simp add: Let_def case_prod_unfold comp_def)
  then show ?case
    using IH markTree_countsInvariant_root by blast
qed

subsection \<open>The first pass keeps every accepted entry once\<close>

lemma with_urls_props [simp]:
  "distinctKeys (with_urls n us') = distinctKeys n"
  "getAllOriginalUrlsFromNode (with_urls n us') =
     us' @ concat (map (\<lambda>(key, child). getAllOriginalUrlsFromNode child) (children n))"
  by (cases n; simp)+

lemma orig_urls_unfold:
  "getAllOriginalUrlsFromNode n =
     urls n @ concat (map (\<lambda>(key, child). getAllOriginalUrlsFromNode child) (children n))"
  by (cases n) simp

lemma distinctKeys_unfold:
  "distinctKeys n \<longleftrightarrow>
     distinct (map fst (children n)) \<and> (\<forall>(key, child) \<in> set (children n). distinctKeys child)"
  by (cases n) (simp add: list_all_iff)

lemma update_key_keys:
  "map fst (map (\<lambda>(key, child). if key = k then (key, g child) else (key, child)) cs) = map fst cs"
  by (induction cs) auto

lemma update_key_mset:
  assumes "distinct (map fst cs)" and "k \<in> fst ` set cs"
    and "\<And>c. (k, c) \<in> set cs \<Longrightarrow>
           mset (getAllOriginalUrlsFromNode (g c)) = add_mset u (mset (getAllOriginalUrlsFromNode c))"
  shows "mset (concat (map (\<lambda>(key, child). getAllOriginalUrlsFromNode child)
                  (map (\<lambda>(key, child). if key = k then (key, g child) else (key, child)) cs)))
         = add_mset u (mset (concat (map (\<lambda>(key, child). getAllOriginalUrlsFromNode child) cs)))"
  using assms
proof (induction cs)
  case Nil
  then show ?case by simp
next
  case (Cons a cs)
  obtain ka ca where a: "a = (ka, ca)" by (cases a)
  show ?case
  proof (cases "ka = k")
    case True
    then have notin: "k \<notin> fst ` set cs" using Cons.prems(1) a by auto
    then have same: "map (\<lambda>(key, child). if key = k then (key, g child) else (key, child)) cs = cs"
      by (induction cs) (auto)
    show ?thesis using True a same Cons.prems(3)[of ca] by simp
  next
    case False
    then have "k \<in> fst ` set cs" using Cons.prems(2) a by auto
    then show ?thesis using False a Cons by simp
  qed
qed

lemma walkSegments_distinctKeys:
  "distinctKeys n \<Longrightarrow> distinctKeys (walkSegments seen segs e0 n)"
proof (induction segs arbitrary: seen n)
  case Nil
  then show ?case by simp
next
  case (Cons segment rest)
  obtain nm fp us inc t l cs ex sel where n: "n = PathTreeNode nm fp us inc t l cs ex sel"
    by (cases n)
  define cs' where "cs' = (if segment \<in> fst ` set cs then cs
      else cs @ [(segment, newChild segment (''/'' @ join_slash (seen @ [segment])))])"
  define g where "g = (\<lambda>child. walkSegments (seen @ [segment]) rest e0
           (if rest = [] then with_urls child (urls child @ [e0]) else child))"
  have d: "distinct (map fst cs')" and a: "\<forall>kc \<in> set cs'. distinctKeys (snd kc)"
    using Cons.prems n by (auto simp: list_all_iff newChild_def cs'_def)
  have "\<forall>kc \<in> set cs'. distinctKeys (g (snd kc))"
    using a Cons.IH by (auto simp: g_def)
  then have all: "list_all (\<lambda>(key, child). distinctKeys child)
      (map (\<lambda>(key, child). if key = segment then (key, g child) else (key, child)) cs')"
    using a by (auto simp: list_all_iff case_prod_unfold)
  have keys: "map fst (map (\<lambda>(key, child). if key = segment then (key, g child) else (key, child)) cs')
      = map fst cs'"
    by (rule update_key_keys)
  have step: "walkSegments seen (segment # rest) e0 n =
      PathTreeNode nm fp us inc t l
        (map (\<lambda>(key, child). if key = segment then (key, g child) else (key, child)) cs') ex sel"
    by (simp add: n Let_def cs'_def g_def case_prod_unfold)
  show ?case
    unfolding step by (simp only: distinctKeys.simps keys d all simp_thms)
qed

lemma walkSegments_mset:
  "segs \<noteq> [] \<Longrightarrow> distinctKeys n \<Longrightarrow>
   mset (getAllOriginalUrlsFromNode (walkSegments seen segs e0 n)) =
     add_mset e0 (mset (getAllOriginalUrlsFromNode n))"
proof (induction segs arbitrary: seen n)
  case Nil
  then show ?case by simp
next
  case (Cons segment rest)
  obtain nm fp us inc t l cs ex sel where n: "n = PathTreeNode nm fp us inc t l cs ex sel"
    by (cases n)
  define cs' where "cs' = (if segment \<in> fst ` set cs then cs
      else cs @ [(segment, newChild segment (''/'' @ join_slash (seen @ [segment])))])"
  define g where "g = (\<lambda>child. walkSegments (seen @ [segment]) rest e0
           (if rest = [] then with_urls child (urls child @ [e0]) else child))"
  have d: "distinct (map fst cs')" and a: "\<forall>kc \<in> set cs'. distinctKeys (snd kc)"
    and k: "segment \<in> fst ` set cs'"
    using Cons.prems n by (auto simp: list_all_iff newChild_def cs'_def)
  have g: "mset (getAllOriginalUrlsFromNode (g c)) = add_mset e0 (mset (getAllOriginalUrlsFromNode c))"
    if "(segment, c) \<in> set cs'" for c
  proof -
    have dc: "distinctKeys c" using a that by auto
    show ?thesis
    proof (cases "rest = []")
      case True
      then show ?thesis by (simp add: g_def orig_urls_unfold[of c])
    next
      case False
      then show ?thesis using Cons.IH[OF False dc] by (simp add: g_def)
    qed
  qed
  have same: "mset (concat (map (\<lambda>(key, child). getAllOriginalUrlsFromNode child) cs'))
     = mset (concat (map (\<lambda>(key, child). getAllOriginalUrlsFromNode child) cs))"
    by (simp add: newChild_def cs'_def)
  have step: "walkSegments seen (segment # rest) e0 n =
      PathTreeNode nm fp us inc t l
        (map (\<lambda>(key, child). if key = segment then (key, g child) else (key, child)) cs') ex sel"
    by (simp add: n Let_def cs'_def g_def case_prod_unfold)
  show ?case
    unfolding step
    using update_key_mset[of cs' segment g e0, OF d k g] same
    by (simp add: n del: map_map)
qed

lemma walkSegments_isIncluded [simp]:
  "isIncluded (walkSegments seen segs e0 n) = isIncluded n"
  by (cases segs) (simp_all add: Let_def)

lemma addUrl_isIncluded [simp]: "isIncluded (addUrl P e0 root) = isIncluded root"
  by (simp add: addUrl_def Let_def split: option.splits)

lemma fold_addUrl_isIncluded [simp]: "isIncluded (fold (addUrl P) us root) = isIncluded root"
  by (induction us arbitrary: root) simp_all

lemma addUrl_distinctKeys: "distinctKeys root \<Longrightarrow> distinctKeys (addUrl P e0 root)"
  by (simp add: addUrl_def Let_def walkSegments_distinctKeys split: option.splits)

lemma addUrl_mset:
  "distinctKeys root \<Longrightarrow>
   mset (getAllOriginalUrlsFromNode (addUrl P e0 root)) =
     (if validUrl P e0 then add_mset e0 (mset (getAllOriginalUrlsFromNode root))
      else mset (getAllOriginalUrlsFromNode root))"
  by (auto simp add: addUrl_def validUrl_def Let_def walkSegments_mset orig_urls_unfold[of root]
      split: option.splits)

lemma fold_addUrl:
  "distinctKeys root \<Longrightarrow>
   distinctKeys (fold (addUrl P) us root) \<and>
   mset (getAllOriginalUrlsFromNode (fold (addUrl P) us root)) =
     mset (filter (validUrl P) us) + mset (getAllOriginalUrlsFromNode root)"
  by (induction us arbitrary: root) (simp_all add: addUrl_distinctKeys addUrl_mset)

lemma buildPathTree_fst:
  "fst (buildPathTree P us m) = markTree True True m (fold (addUrl P) us emptyRoot)"
proof -
  have "isIncluded (fold (addUrl P) us emptyRoot) = True"
    by (simp add: emptyRoot_def)
  then show ?thesis
    by (simp add: buildPathTree_def Let_def markIncludedChildren_fst del: markIncludedChildren.simps)
qed

subsection \<open>Collecting the included URLs\<close>

lemma chainNodes_urls:
  "concat (map (\<lambda>(ok, n). urls n) (filter fst (chainNodes b0 n))) =
     (if b0 then getAllUrlsFromNode n else [])"
proof (induction n arbitrary: b0)
  case (PathTreeNode nm fp us inc t l cs ex sel)
  have IH: "\<And>kc b. kc \<in> set cs \<Longrightarrow>
      concat (map (\<lambda>(ok, n). urls n) (filter fst (chainNodes b (snd kc)))) =
        (if b then getAllUrlsFromNode (snd kc) else [])"
    using PathTreeNode.IH by (auto simp: snds.simps)
  have "concat (map (\<lambda>(ok, n). urls n)
          (filter fst (concat (map (\<lambda>(key, child). chainNodes b child) cs)))) =
        (if b then concat (map (\<lambda>(key, child). getAllUrlsFromNode child) cs) else [])" for b
    using IH
    by (induction cs) (auto simp: case_prod_unfold)
  then show ?case by simp
qed

lemma getAllUrlsFromNode_chain:
  "isIncluded root \<Longrightarrow> getAllUrlsFromNode root = chainIncludedUrls root"
proof -
  assume inc: "isIncluded root"
  have kids: "concat (map (\<lambda>(ok, n). urls n)
          (filter fst (concat (map (\<lambda>(key, child). chainNodes True child) cs)))) =
        concat (map (\<lambda>(key, child). getAllUrlsFromNode child) cs)" for cs
    by (induction cs) (auto simp: case_prod_unfold chainNodes_urls[unfolded case_prod_unfold])
  show ?thesis using inc
    by (cases root) (simp add: chainIncludedUrls_def kids)
qed

subsection \<open>Raising the limit\<close>

lemma slice0_mono:
  "0 \<le> k1 \<Longrightarrow> k1 \<le> k2 \<Longrightarrow> set (slice0 xs k1) \<subseteq> set (slice0 xs k2)"
  by (auto simp: slice0_def intro!: set_take_subset_set_take)

lemma map_of_marked:
  "map_of (map (\<lambda>(key, child). (key, g key child)) cs) k = map_option (g k) (map_of cs k)"
  by (induction cs) auto

text \<open>The keys the second pass includes below a node, for a limit.\<close>

lemma markTree_children:
  "children (markTree own p m n) =
     map (\<lambda>(key, child).
            (key, markTree
               (p \<and> key \<in> set (if fullPath n = [] then map fst (filter (\<lambda>(key, child). hasAnyUrls child) (children n))
                                  else slice0 (map fst (filter (\<lambda>(key, child). hasAnyUrls child) (children n))) m))
               (p \<and> key \<in> set (if fullPath n = [] then map fst (filter (\<lambda>(key, child). hasAnyUrls child) (children n))
                                  else slice0 (map fst (filter (\<lambda>(key, child). hasAnyUrls child) (children n))) m))
               m child))
         (children n)"
  by (cases n) (simp add: Let_def)

lemma includedAt_mono:
  assumes "0 \<le> k1" and "k1 \<le> k2"
  shows "(own1 \<longrightarrow> own2) \<Longrightarrow> (p1 \<longrightarrow> p2) \<Longrightarrow>
    includedAt (markTree own1 p1 k1 n) path \<Longrightarrow> includedAt (markTree own2 p2 k2 n) path"
proof (induction path arbitrary: n own1 own2 p1 p2)
  case Nil
  then show ?case by (simp add: includedAt_def)
next
  case (Cons key keys)
  define cw where "cw = map fst (filter (\<lambda>(key, child). hasAnyUrls child) (children n))"
  define i1 where "i1 = (if fullPath n = [] then cw else slice0 cw k1)"
  define i2 where "i2 = (if fullPath n = [] then cw else slice0 cw k2)"
  have sub: "set i1 \<subseteq> set i2"
    using slice0_mono[OF assms, of cw] by (auto simp: i1_def i2_def)
  have c1: "map_of (children (markTree own1 p1 k1 n)) key =
      map_option (markTree (p1 \<and> key \<in> set i1) (p1 \<and> key \<in> set i1) k1) (map_of (children n) key)"
    unfolding markTree_children i1_def cw_def
    by (rule map_of_marked[where g = "\<lambda>key. markTree
          (p1 \<and> key \<in> set (if fullPath n = [] then map fst (filter (\<lambda>(key, child). hasAnyUrls child) (children n))
                                  else slice0 (map fst (filter (\<lambda>(key, child). hasAnyUrls child) (children n))) k1))
          (p1 \<and> key \<in> set (if fullPath n = [] then map fst (filter (\<lambda>(key, child). hasAnyUrls child) (children n))
                                  else slice0 (map fst (filter (\<lambda>(key, child). hasAnyUrls child) (children n))) k1)) k1"])
  have c2: "map_of (children (markTree own2 p2 k2 n)) key =
      map_option (markTree (p2 \<and> key \<in> set i2) (p2 \<and> key \<in> set i2) k2) (map_of (children n) key)"
    unfolding markTree_children i2_def cw_def
    by (rule map_of_marked[where g = "\<lambda>key. markTree
          (p2 \<and> key \<in> set (if fullPath n = [] then map fst (filter (\<lambda>(key, child). hasAnyUrls child) (children n))
                                  else slice0 (map fst (filter (\<lambda>(key, child). hasAnyUrls child) (children n))) k2))
          (p2 \<and> key \<in> set (if fullPath n = [] then map fst (filter (\<lambda>(key, child). hasAnyUrls child) (children n))
                                  else slice0 (map fst (filter (\<lambda>(key, child). hasAnyUrls child) (children n))) k2)) k2"])
  show ?case
  proof (cases "map_of (children n) key")
    case None
    then show ?thesis using Cons.prems(3) c1 by (simp add: includedAt_def)
  next
    case (Some child)
    have flags: "(p1 \<and> key \<in> set i1) \<longrightarrow> (p2 \<and> key \<in> set i2)"
      using sub Cons.prems(2) by auto
    have "includedAt (markTree (p1 \<and> key \<in> set i1) (p1 \<and> key \<in> set i1) k1 child) keys"
      using Cons.prems(3) c1 Some by (simp add: includedAt_def)
    then have "includedAt (markTree (p2 \<and> key \<in> set i2) (p2 \<and> key \<in> set i2) k2 child) keys"
      using Cons.IH[OF flags flags] by blast
    then show ?thesis using c2 Some by (simp add: includedAt_def)
  qed
qed

subsection \<open>The claims about \<^verbatim>\<open>buildPathTree\<close>\<close>

lemma orig_urls_allNodes:
  "getAllOriginalUrlsFromNode n = concat (map urls (allNodes n))"
proof (induction n)
  case (PathTreeNode nm fp us inc t l cs ex sel)
  have "\<And>kc. kc \<in> set cs \<Longrightarrow>
      getAllOriginalUrlsFromNode (snd kc) = concat (map urls (allNodes (snd kc)))"
    using PathTreeNode.IH by (auto simp: snds.simps)
  then have "concat (map (\<lambda>(key, child). getAllOriginalUrlsFromNode child) cs) =
      concat (map urls (concat (map (\<lambda>(key, child). allNodes child) cs)))"
    by (induction cs) (auto simp: case_prod_unfold)
  then show ?case by simp
qed

text \<open>
  C1. After \<^verbatim>\<open>buildPathTree(urls, maxChildrenPerParent)\<close>, every node of the tree has
  \<^verbatim>\<open>limitedUrlCount\<close> at most \<^verbatim>\<open>totalUrlCount\<close>; its \<^verbatim>\<open>totalUrlCount\<close> is the
  length of its own \<^verbatim>\<open>urls\<close> plus the sum of its children's \<^verbatim>\<open>totalUrlCount\<close>;
  its \<^verbatim>\<open>limitedUrlCount\<close> obeys the same recurrence over \<^verbatim>\<open>limitedUrlCount\<close>
  when the node is marked \<^verbatim>\<open>isIncluded\<close> and is 0 when it is not.
\<close>

theorem buildPathTree_counts_invariant:
  "\<forall>n \<in> set (allNodes (fst (buildPathTree URL_pathname urls' maxChildrenPerParent))).
     countsInvariant n"
  unfolding buildPathTree_fst using markTree_countsInvariant by blast

text \<open>
  The excluded second child of \<^verbatim>\<open>/a\<close> under limit 1: total 1, limited 0.
\<close>

theorem buildPathTree_counts_invariant_witness:
  "PathTreeNode ''c'' ''/a/c'' [entry ''h:/a/c''] False 1 0 [] False False
     \<in> set (allNodes (fst (buildPathTree toy_pathname [entry ''h:/a/b'', entry ''h:/a/c''] 1)))
   \<and> countsInvariant (PathTreeNode ''c'' ''/a/c'' [entry ''h:/a/c''] False 1 0 [] False False)"
proof -
  have mem: "PathTreeNode ''c'' ''/a/c'' [entry ''h:/a/c''] False 1 0 [] False False
     \<in> set (allNodes (fst (buildPathTree toy_pathname [entry ''h:/a/b'', entry ''h:/a/c''] 1)))"
    by code_simp
  show ?thesis
    using mem buildPathTree_counts_invariant[of toy_pathname "[entry ''h:/a/b'', entry ''h:/a/c'']" 1]
    by blast
qed

text \<open>
  C2. For every URL list and every limit, the root's \<^verbatim>\<open>totalUrlCount\<close> after
  \<^verbatim>\<open>buildPathTree\<close> is the number of input entries whose \<^verbatim>\<open>loc\<close> the URL
  constructor accepts, and the entries attached to the nodes of the tree are exactly
  those entries, each as often as it occurs in the input: a rejected entry is attached
  to no node.
\<close>

theorem buildPathTree_root_total:
  "totalUrlCount (fst (buildPathTree URL_pathname urls' maxChildrenPerParent)) =
     length (filter (validUrl URL_pathname) urls') \<and>
   mset (concat (map urls (allNodes (fst (buildPathTree URL_pathname urls' maxChildrenPerParent))))) =
     mset (filter (validUrl URL_pathname) urls')"
proof -
  have d: "distinctKeys emptyRoot" by (simp add: emptyRoot_def)
  have m: "mset (getAllOriginalUrlsFromNode (fold (addUrl URL_pathname) urls' emptyRoot)) =
      mset (filter (validUrl URL_pathname) urls')"
    using fold_addUrl[OF d, of URL_pathname urls'] by (simp add: emptyRoot_def)
  have "length (getAllOriginalUrlsFromNode (fold (addUrl URL_pathname) urls' emptyRoot)) =
      length (filter (validUrl URL_pathname) urls')"
    using m by (metis size_mset)
  then show ?thesis
    using m
    by (simp add: buildPathTree_fst markTree_total
        orig_urls_allNodes[symmetric] markTree_original_urls)
qed

text \<open>Two of these four entries parse; one of the others has no \<^verbatim>\<open>loc\<close>.\<close>

lemma root_total_example:
  "totalUrlCount (fst (buildPathTree toy_pathname
      [entry ''h:/a'', entry ''bad'', \<lparr>loc = None, lastmod = None, changefreq = None, priority = None\<rparr>,
       entry ''h:/''] 20)) = 2"
  by code_simp

text \<open>
  C7. For every built tree, \<^verbatim>\<open>getAllUrlsFromNode\<close> applied to the root returns, in
  order, exactly the URLs attached to the nodes whose whole chain of nodes below the
  root, the node itself included, is marked \<^verbatim>\<open>isIncluded\<close>; a node below an
  excluded node contributes nothing, whatever its own mark.
\<close>

theorem getAllUrlsFromNode_chain_included:
  "getAllUrlsFromNode (fst (buildPathTree URL_pathname urls' maxChildrenPerParent)) =
     chainIncludedUrls (fst (buildPathTree URL_pathname urls' maxChildrenPerParent))"
  by (rule getAllUrlsFromNode_chain) (simp add: buildPathTree_fst)

text \<open>
  C3. For every URL list and limits \<open>k1 \<le> k2\<close> (a limit is a number of children,
  a natural number), every node marked \<^verbatim>\<open>isIncluded\<close> after
  \<^verbatim>\<open>buildPathTree(urls, k1)\<close> is marked \<^verbatim>\<open>isIncluded\<close> after
  \<^verbatim>\<open>buildPathTree(urls, k2)\<close>: raising the limit adds branches and removes none.
  A node is named by the path of keys that leads to it from the root.
\<close>

theorem included_monotone_in_limit:
  fixes k1 k2 :: nat
  assumes "k1 \<le> k2"
    and "includedAt (fst (buildPathTree URL_pathname urls' (int k1))) path"
  shows "includedAt (fst (buildPathTree URL_pathname urls' (int k2))) path"
proof -
  have le: "int k1 \<le> int k2" and nonneg: "0 \<le> int k1"
    using assms(1) by simp_all
  show ?thesis
    using includedAt_mono[OF nonneg le, of True True True True] assms(2)
    unfolding buildPathTree_fst by simp
qed

text \<open>
  Under limit 1 the first child of \<^verbatim>\<open>/a\<close> is included, and so it is under limit 2,
  where the second child is included as well.
\<close>

theorem included_monotone_in_limit_witness:
  "(1::nat) \<le> 2 \<and>
   includedAt (fst (buildPathTree toy_pathname [entry ''h:/a/b'', entry ''h:/a/c''] (int 1))) [''a'', ''b''] \<and>
   includedAt (fst (buildPathTree toy_pathname [entry ''h:/a/b'', entry ''h:/a/c''] (int 2))) [''a'', ''b'']"
proof -
  have a: "includedAt (fst (buildPathTree toy_pathname [entry ''h:/a/b'', entry ''h:/a/c''] (int 1))) [''a'', ''b'']"
    by code_simp
  have le: "(1::nat) \<le> 2" by simp
  show ?thesis
    using a le included_monotone_in_limit[OF le a]
    by simp
qed

lemma limit_example:
  "\<not> includedAt (fst (buildPathTree toy_pathname [entry ''h:/a/b'', entry ''h:/a/c''] 1)) [''a'', ''c''] \<and>
   includedAt (fst (buildPathTree toy_pathname [entry ''h:/a/b'', entry ''h:/a/c''] 2)) [''a'', ''c'']"
  by code_simp

section \<open>Properties of the sitemap resolver\<close>

lemma fetchSitemap_requested: "snd (fetchSitemap fetch u requested) = requested @ [u]"
  by (simp add: fetchSitemap_def Let_def split: sum.splits)

lemma fetchSitemap_result: "fst (fetchSitemap fetch u requested) = fst (fetchSitemap fetch u [])"
  by (simp add: fetchSitemap_def Let_def split: sum.splits)

lemma nestedTask_requested:
  "snd (nestedTask fetch parser sitemap requested) = requested @ [String_of (loc sitemap)]"
  using fetchSitemap_requested[of fetch "String_of (loc sitemap)" requested]
  by (auto simp: nestedTask_def split: prod.splits sum.splits)

lemma nestedTask_result:
  "fst (nestedTask fetch parser sitemap requested) = fst (nestedTask fetch parser sitemap [])"
  using fetchSitemap_result[of fetch "String_of (loc sitemap)" requested]
  by (auto simp: nestedTask_def split: prod.splits sum.splits)

lemma settleAll_eq:
  "settleAll fetch parser sitemaps requested =
     (map (\<lambda>s. fst (nestedTask fetch parser s [])) sitemaps,
      requested @ map (\<lambda>s. String_of (loc s)) sitemaps)"
proof (induction sitemaps arbitrary: requested)
  case Nil
  then show ?case by simp
next
  case (Cons s rest)
  obtain r q where t: "nestedTask fetch parser s requested = (r, q)" by fastforce
  have r: "r = fst (nestedTask fetch parser s [])"
    using nestedTask_result[of fetch parser s requested] t by simp
  have q: "q = requested @ [String_of (loc s)]"
    using nestedTask_requested[of fetch parser s requested] t by simp
  show ?case using Cons.IH[of q] t r q by simp
qed

lemma fold_settled:
  "fold (\<lambda>result allUrls. case result of Fulfilled v \<Rightarrow> allUrls @ v | Rejected e \<Rightarrow> allUrls) rs acc =
     acc @ concat (map (\<lambda>r. case r of Fulfilled v \<Rightarrow> v | Rejected e \<Rightarrow> []) rs)"
  by (induction rs arbitrary: acc) (auto split: settled.splits)

lemma sitemapEntries_documentEntries: "sitemapEntries parsed = documentEntries parsed"
  by (simp add: sitemapEntries_def documentEntries_def urlEntry_def sitemapRef_def Let_def
      split: option.splits)

text \<open>
  The three ways a nested sitemap fails, on the code: the promise of its task is
  rejected, so the loop over the settled results adds nothing for it.
\<close>

lemma nestedTask_fetch_rejected:
  "fetch (String_of (loc sitemap)) = Inl e \<Longrightarrow>
   fst (nestedTask fetch parser sitemap requested) = Rejected e"
  by (simp add: nestedTask_def fetchSitemap_def Let_def)

lemma nestedTask_not_ok:
  "fetch (String_of (loc sitemap)) = Inr response \<Longrightarrow> \<not> ok response \<Longrightarrow>
   \<exists>e. fst (nestedTask fetch parser sitemap requested) = Rejected e"
  by (simp add: nestedTask_def fetchSitemap_def Let_def)

lemma nestedTask_parse_failed:
  "fetch (String_of (loc sitemap)) = Inr response \<Longrightarrow> ok response \<Longrightarrow>
   body_text response = Inr xml \<Longrightarrow> parser xml = Inl e \<Longrightarrow>
   fst (nestedTask fetch parser sitemap requested) = Rejected e"
  by (simp add: nestedTask_def fetchSitemap_def parseSitemapXml_def Let_def)

lemma nestedTask_contribution:
  "(case fst (nestedTask fetch parser sitemap requested) of
      Fulfilled v \<Rightarrow> v
    | Rejected e \<Rightarrow> []) = contribution fetch parser sitemap"
  by (simp add: nestedTask_def fetchSitemap_def parseSitemapXml_def contribution_def Let_def
      sitemapEntries_documentEntries split: sum.splits)

lemma fetchNestedSitemaps_eq:
  "fetchNestedSitemaps fetch parser sitemapUrls requested =
     (concat (map (contribution fetch parser) (take 10 sitemapUrls)),
      requested @ map (\<lambda>s. String_of (loc s)) (take 10 sitemapUrls))"
proof -
  have "(\<lambda>x. case fst (nestedTask fetch parser x []) of Fulfilled v \<Rightarrow> v | Rejected e \<Rightarrow> [])
      = contribution fetch parser"
    by (rule ext) (rule nestedTask_contribution)
  then show ?thesis
    by (simp add: fetchNestedSitemaps_def settleAll_eq fold_settled comp_def Let_def)
qed

lemma everyLooksLikeSitemap_True:
  "everyLooksLikeSitemap us = Inr True \<longleftrightarrow> list_all looksLikeSitemap us"
  by (induction us) (auto simp: looksLikeSitemap_def undefinedLoc_def split: option.splits)

lemma isSitemapIndex_True:
  "isSitemapIndex us = Inr True \<longleftrightarrow> firstContainsSitemap us \<and> list_all looksLikeSitemap us"
proof (cases us)
  case Nil
  then show ?thesis by (simp add: isSitemapIndex_def firstContainsSitemap_def)
next
  case (Cons u rest)
  show ?thesis
  proof (cases "loc u")
    case None
    then show ?thesis using Cons
      by (simp add: isSitemapIndex_def firstContainsSitemap_def undefinedLoc_def)
  next
    case (Some l)
    then show ?thesis
      using Cons everyLooksLikeSitemap_True[of us]
      by (auto simp add: isSitemapIndex_def firstContainsSitemap_def looksLikeSitemap_def)
  qed
qed

lemma resolve_try_requested:
  assumes "fetchSitemap fetch u [] = (Inr xml, requested)"
    and "parseSitemapXml parser xml = Inr us"
  shows "snd (resolve_try fetch parser u) =
     [u] @ (if isSitemapIndex us = Inr True then map (\<lambda>s. String_of (loc s)) (take 10 us) else [])"
proof -
  have q: "requested = [u]"
    using fetchSitemap_requested[of fetch u "[]"] assms(1) by simp
  show ?thesis
  proof (cases "isSitemapIndex us")
    case (Inl e)
    then show ?thesis using assms q by (simp add: resolve_try_def)
  next
    case (Inr b)
    then show ?thesis using assms q
      by (cases b) (simp_all add: resolve_try_def fetchNestedSitemaps_eq)
  qed
qed

text \<open>
  C5, amended. After the top-level sitemap is fetched and parsed into a non-empty entry
  list, the resolver classifies it as a sitemap index, and goes on to request the
  nested sitemaps, exactly when the \<^verbatim>\<open>loc\<close> of the first entry contains
  \<^verbatim>\<open>sitemap\<close> and every entry's \<^verbatim>\<open>loc\<close> ends in \<^verbatim>\<open>.xml\<close> or contains
  \<^verbatim>\<open>sitemap\<close>. The requests made are then the top-level URL followed by the
  \<^verbatim>\<open>loc\<close> of the first ten entries, and the top-level URL alone otherwise.
\<close>

theorem index_classification:
  assumes "fetchSitemap fetch u [] = (Inr xml, requested)"
    and "parseSitemapXml parser xml = Inr us"
    and "us \<noteq> []"
  shows "(isSitemapIndex us = Inr True) = (firstContainsSitemap us \<and> list_all looksLikeSitemap us) \<and>
         snd (resolve_try fetch parser u) =
           [u] @ (if firstContainsSitemap us \<and> list_all looksLikeSitemap us
                  then map (\<lambda>s. String_of (loc s)) (take 10 us) else [])"
  using resolve_try_requested[OF assms(1,2)] isSitemapIndex_True[of us] by simp

text \<open>The index of the example network is classified as one, and both its sitemaps are requested.\<close>

theorem index_classification_witness:
  "fetchSitemap toy_fetch ''h:/sitemap.xml'' [] = (Inr ''index'', [''h:/sitemap.xml'']) \<and>
   parseSitemapXml toy_parser ''index'' = Inr [entry ''h:/sitemap-1.xml'', entry ''h:/sitemap-2.xml''] \<and>
   [entry ''h:/sitemap-1.xml'', entry ''h:/sitemap-2.xml''] \<noteq> [] \<and>
   isSitemapIndex [entry ''h:/sitemap-1.xml'', entry ''h:/sitemap-2.xml''] = Inr True \<and>
   snd (resolve_try toy_fetch toy_parser ''h:/sitemap.xml'') =
     [''h:/sitemap.xml'', ''h:/sitemap-1.xml'', ''h:/sitemap-2.xml'']"
proof -
  have a: "fetchSitemap toy_fetch ''h:/sitemap.xml'' [] = (Inr ''index'', [''h:/sitemap.xml''])"
    by code_simp
  have b: "parseSitemapXml toy_parser ''index'' = Inr [entry ''h:/sitemap-1.xml'', entry ''h:/sitemap-2.xml'']"
    by code_simp
  have c: "[entry ''h:/sitemap-1.xml'', entry ''h:/sitemap-2.xml''] \<noteq> []" by simp
  have d: "firstContainsSitemap [entry ''h:/sitemap-1.xml'', entry ''h:/sitemap-2.xml''] \<and>
           list_all looksLikeSitemap [entry ''h:/sitemap-1.xml'', entry ''h:/sitemap-2.xml'']"
    by code_simp
  have e: "map (\<lambda>s. String_of (loc s)) (take 10 [entry ''h:/sitemap-1.xml'', entry ''h:/sitemap-2.xml''])
      = [''h:/sitemap-1.xml'', ''h:/sitemap-2.xml'']"
    by code_simp
  show ?thesis
    using index_classification[OF a b c] a b d e by simp
qed

text \<open>
  Without the condition on the first entry the statement fails: the only entry of this
  sitemap ends in \<^verbatim>\<open>.xml\<close>, its \<^verbatim>\<open>loc\<close> does not contain \<^verbatim>\<open>sitemap\<close>, and
  the resolver returns it without requesting anything further.
\<close>

theorem index_classification_counterexample:
  "fetchSitemap toy_fetch ''h:/plain'' [] = (Inr ''plain'', [''h:/plain'']) \<and>
   parseSitemapXml toy_parser ''plain'' = Inr [entry ''h:/a.xml''] \<and>
   list_all looksLikeSitemap [entry ''h:/a.xml''] \<and>
   isSitemapIndex [entry ''h:/a.xml''] = Inr False \<and>
   resolve_try toy_fetch toy_parser ''h:/plain'' = (Inr [entry ''h:/a.xml''], [''h:/plain''])"
  by code_simp

text \<open>
  C6. When a sitemap index is resolved, the nested sitemaps requested are those of the
  first ten entries, so at most ten; a nested sitemap whose fetch or parse fails (a
  rejected request, a status that is not 2xx, an unreadable body, a body that does not
  parse) contributes no entry and the reply is still the successful one; the entries
  of the others are concatenated in order; and when no nested entry was resolved the
  reply carries the outer entry list.
\<close>

theorem nested_resolution:
  assumes "u \<noteq> []" and "URL_pathname u \<noteq> None"
    and "fetchSitemap fetch u [] = (Inr xml, requested)"
    and "parseSitemapXml parser xml = Inr us"
    and "isSitemapIndex us = Inr True"
  shows "(let nested = concat (map (contribution fetch parser) (take 10 us));
              returned = (if nested = [] then us else nested);
              fetched = map (\<lambda>s. String_of (loc s)) (take 10 us)
          in POST_parse_sitemap URL_pathname fetch parser (Inr (Some u)) =
               (Ok200 returned (length returned), u # fetched) \<and>
             length fetched \<le> 10)"
proof -
  have q: "requested = [u]"
    using fetchSitemap_requested[of fetch u "[]"] assms(3) by simp
  show ?thesis
    using assms q
    by (auto simp add: POST_parse_sitemap_def resolve_try_def fetchNestedSitemaps_eq Let_def)
qed

text \<open>
  An index of two sitemaps, the second of which answers 404 with a body that would
  parse to two entries: it contributes nothing, and the reply carries the two entries of
  the first.
\<close>

theorem nested_resolution_witness:
  "toy_fetch ''h:/sitemap-2.xml'' =
     Inr \<lparr>ok = False, status = 404, statusText = ''Not Found'', body_text = Inr ''pages''\<rparr> \<and>
   parseSitemapXml toy_parser ''pages'' = Inr [entry ''h:/a'', entry ''h:/b''] \<and>
   contribution toy_fetch toy_parser (entry ''h:/sitemap-1.xml'') = [entry ''h:/a'', entry ''h:/b''] \<and>
   contribution toy_fetch toy_parser (entry ''h:/sitemap-2.xml'') = [] \<and>
   POST_parse_sitemap toy_pathname toy_fetch toy_parser (Inr (Some ''h:/sitemap.xml'')) =
     (Ok200 [entry ''h:/a'', entry ''h:/b''] 2,
      [''h:/sitemap.xml'', ''h:/sitemap-1.xml'', ''h:/sitemap-2.xml''])"
proof -
  let ?us = "[entry ''h:/sitemap-1.xml'', entry ''h:/sitemap-2.xml'']"
  have n: "''h:/sitemap.xml'' \<noteq> []" by simp
  have v: "toy_pathname ''h:/sitemap.xml'' \<noteq> None" by code_simp
  have a: "fetchSitemap toy_fetch ''h:/sitemap.xml'' [] = (Inr ''index'', [''h:/sitemap.xml''])"
    by code_simp
  have b: "parseSitemapXml toy_parser ''index'' = Inr ?us"
    by code_simp
  have c: "isSitemapIndex ?us = Inr True" by code_simp
  have c1: "contribution toy_fetch toy_parser (entry ''h:/sitemap-1.xml'') = [entry ''h:/a'', entry ''h:/b'']"
    by code_simp
  have c2: "contribution toy_fetch toy_parser (entry ''h:/sitemap-2.xml'') = []"
    by code_simp
  have e: "map (\<lambda>s. String_of (loc s)) ?us = [''h:/sitemap-1.xml'', ''h:/sitemap-2.xml'']"
    by code_simp
  have f: "toy_fetch ''h:/sitemap-2.xml'' =
     Inr \<lparr>ok = False, status = 404, statusText = ''Not Found'', body_text = Inr ''pages''\<rparr>"
    by code_simp
  have g: "parseSitemapXml toy_parser ''pages'' = Inr [entry ''h:/a'', entry ''h:/b'']"
    by code_simp
  show ?thesis
    using nested_resolution[where URL_pathname = toy_pathname and fetch = toy_fetch
        and parser = toy_parser and u = "''h:/sitemap.xml''", OF n v a b c] c1 c2 e f g
    by (simp add: Let_def)
qed

text \<open>
  C4. The claim: an entry lacking a \<^verbatim>\<open>loc\<close> is excluded from the resolver's result.
  The code does not do so. For a \<^verbatim>\<open>urlset\<close> of two \<^verbatim>\<open>url\<close> elements, the second
  without \<^verbatim>\<open>loc\<close>, the route answers 200 with both entries, the second with an
  absent \<^verbatim>\<open>loc\<close>, against the declared type \<^verbatim>\<open>SitemapUrl.loc: string\<close>; and when
  the first \<^verbatim>\<open>loc\<close> names a sitemap, so that the index test reads the second entry,
  the route answers 500 with no entry at all.
\<close>

theorem resolver_keeps_entry_without_loc:
  "POST_parse_sitemap toy_pathname toy_fetch toy_parser (Inr (Some ''h:/mixed'')) =
     (Ok200 [\<lparr>loc = Some ''h:/a'', lastmod = None, changefreq = None, priority = None\<rparr>,
             \<lparr>loc = None, lastmod = None, changefreq = None, priority = None\<rparr>] 2,
      [''h:/mixed'']) \<and>
   POST_parse_sitemap toy_pathname toy_fetch toy_parser (Inr (Some ''h:/holes'')) =
     (Err500 ''Cannot read properties of undefined'' [] 0, [''h:/holes''])"
  by code_simp

section \<open>Properties of the metadata route\<close>




section \<open>Properties of the selection\<close>

lemma fold_delete: "fold (\<lambda>l s. s - {l}) ls s = s - set ls"
  by (induction ls arbitrary: s) auto

lemma fold_insert: "fold (\<lambda>l s. insert l s) ls s = s \<union> set ls"
  by (induction ls arbitrary: s) auto

text \<open>
  C9. For every batch of URLs and every selection: when every URL of the batch is
  selected, all of them are removed from the selection; otherwise all of them are
  added, and nothing is removed.
\<close>

theorem handleToggleSelect_all_or_nothing:
  "handleToggleSelect selectedUrls urlsToToggle =
     (if set (map loc urlsToToggle) \<subseteq> selectedUrls
      then selectedUrls - set (map loc urlsToToggle)
      else selectedUrls \<union> set (map loc urlsToToggle)) \<and>
   (\<not> set (map loc urlsToToggle) \<subseteq> selectedUrls \<longrightarrow>
      selectedUrls \<subseteq> handleToggleSelect selectedUrls urlsToToggle \<and>
      set (map loc urlsToToggle) \<subseteq> handleToggleSelect selectedUrls urlsToToggle)"
  by (auto simp add: handleToggleSelect_def Let_def fold_delete fold_insert list_all_iff)

text \<open>Two of three URLs are selected: the toggle selects all three.\<close>

theorem handleToggleSelect_all_or_nothing_witness:
  "\<not> set (map loc [entry ''a'', entry ''b'', entry ''c'']) \<subseteq> {Some ''a'', Some ''b''} \<and>
   handleToggleSelect {Some ''a'', Some ''b''} [entry ''a'', entry ''b'', entry ''c''] =
     {Some ''a'', Some ''b'', Some ''c''}"
proof -
  have n: "\<not> set (map loc [entry ''a'', entry ''b'', entry ''c'']) \<subseteq> {Some ''a'', Some ''b''}"
    by (simp add: entry_def)
  show ?thesis
    using n handleToggleSelect_all_or_nothing[of "{Some ''a'', Some ''b''}"
                "[entry ''a'', entry ''b'', entry ''c'']"]
    by (auto simp: entry_def)
qed

section \<open>Order and counts of the batch reply\<close>

lemma processUrl_url: "url (processUrl fetch scrape u) = u"
  by (auto simp: processUrl_def tryFetchAndExtract_def extractMetaTags_def split: sum.splits)

lemma processBatches_eq:
  "0 < b \<Longrightarrow> processBatches fetch scrape b us i rs = rs @ map (processUrl fetch scrape) (drop i us)"
proof (induction fetch scrape b us i rs rule: processBatches.induct)
  case (1 fetch scrape batchSize urlsToProcess i results')
  show ?case
  proof (cases "i < length urlsToProcess")
    case True
    have "take batchSize (drop i urlsToProcess) @ drop (i + batchSize) urlsToProcess = drop i urlsToProcess"
      by (metis add.commute append_take_drop_id drop_drop)
    then have "map (processUrl fetch scrape) (take batchSize (drop i urlsToProcess)) @
          map (processUrl fetch scrape) (drop (i + batchSize) urlsToProcess) =
          map (processUrl fetch scrape) (drop i urlsToProcess)"
      by (metis map_append)
    then show ?thesis
      using True "1.prems" "1.IH"[OF _ refl refl "1.prems"]
      by (subst processBatches.simps) (simp add: Let_def)
  next
    case False
    then show ?thesis by (subst processBatches.simps) simp
  qed
qed

text \<open>
  C10. For every call of the metadata route with a non-empty URL array, the reply is
  the successful one; its results are the records of the first 50 URLs in the order of
  the request, the \<^verbatim>\<open>url\<close> of the i-th result being the i-th of these URLs;
  \<^verbatim>\<open>processedCount\<close> and the number of results are the minimum of the input
  length and 50; \<^verbatim>\<open>errorCount\<close> is the number of results with status
  \<^verbatim>\<open>error\<close>.
\<close>

theorem POST_fetch_meta_order:
  assumes "urls' \<noteq> []"
  shows "POST_fetch_meta fetch scrape (Inr (Some urls')) =
           MetaOk200 \<lparr>results = map (processUrl fetch scrape) (take 50 urls'),
                      processedCount = min (length urls') 50,
                      errorCount = length (filter (\<lambda>r. pageStatus r = StatusError)
                                     (map (processUrl fetch scrape) (take 50 urls')))\<rparr> \<and>
         map url (map (processUrl fetch scrape) (take 50 urls')) = take 50 urls' \<and>
         length (map (processUrl fetch scrape) (take 50 urls')) = min (length urls') 50"
  using assms
  by (simp add: POST_fetch_meta_def Let_def processBatches_eq comp_def processUrl_url)

text \<open>Three URLs, two of which fail.\<close>

theorem POST_fetch_meta_order_witness:
  "[''h:/plain'', ''h:/slow'', ''h:/gone''] \<noteq> [] \<and>
   map url (map (processUrl toy_fetch toy_scrape) (take 50 [''h:/plain'', ''h:/slow'', ''h:/gone''])) =
     [''h:/plain'', ''h:/slow'', ''h:/gone''] \<and>
   POST_fetch_meta toy_fetch toy_scrape (Inr (Some [''h:/plain'', ''h:/slow'', ''h:/gone''])) =
     MetaOk200 \<lparr>results = map (processUrl toy_fetch toy_scrape) [''h:/plain'', ''h:/slow'', ''h:/gone''],
                processedCount = 3, errorCount = 2\<rparr>"
proof -
  have n: "[''h:/plain'', ''h:/slow'', ''h:/gone''] \<noteq> []" by simp
  have c: "length (filter (\<lambda>r. pageStatus r = StatusError)
             (map (processUrl toy_fetch toy_scrape) (take 50 [''h:/plain'', ''h:/slow'', ''h:/gone'']))) = 2"
    by code_simp
  show ?thesis
    using POST_fetch_meta_order[OF n, of toy_fetch toy_scrape] c
    by simp
qed

end
